theory Spec2Isabelle
  imports Main
begin

section \<open>Data model of the process hook\<close>

text \<open>
  Modelled from the spec: the type declarations of \<^verbatim>\<open>lib/types\<close> (ProcessInfo,
  ProjectProcesses, WSProcessUpdateMessage) are imported by \<^verbatim>\<open>useProcesses.ts\<close> but are
  not among the sources. A process node carries \<^verbatim>\<open>pid\<close>, \<^verbatim>\<open>name\<close>, \<^verbatim>\<open>status\<close>
  (running, paused or stopped), \<^verbatim>\<open>started_at\<close> and an ordered sequence of children; a
  project groups root nodes under \<^verbatim>\<open>project_name\<close> with a backend-computed
  \<^verbatim>\<open>total_count\<close>; a push message has the shape \<^verbatim>\<open>{ processes: Snapshot }\<close>.
  The fields are the ones the process panel reads. JavaScript numbers are modelled as
  \<^typ>\<open>int\<close> (exact for the integer counts and pids the hook handles).
\<close>

datatype ProcessStatus = Running | Paused | Stopped

datatype ProcessInfo =
  ProcessInfo (pid: int) (name: string) (status: ProcessStatus) (started_at: string)
    (children: "ProcessInfo list")

record ProjectProcesses =
  project_name :: string
  processes :: "ProcessInfo list"
  total_count :: int

type_synonym Snapshot = "ProjectProcesses list"

record WSProcessUpdateMessage =
  message_processes :: Snapshot

datatype Error = Error (message: string)

text \<open>The number of nodes of a process tree, descendants included.\<close>

fun count_nodes :: "ProcessInfo \<Rightarrow> nat" where
  "count_nodes (ProcessInfo p n s t cs) = Suc (sum_list (map count_nodes cs))"

definition count_forest :: "ProcessInfo list \<Rightarrow> nat" where
  "count_forest ps = sum_list (map count_nodes ps)"

definition count_snapshot :: "Snapshot \<Rightarrow> nat" where
  "count_snapshot snap = sum_list (map (\<lambda>p. count_forest (processes p)) snap)"

text \<open>A snapshot is well formed when every \<^verbatim>\<open>total_count\<close> is the recursive node count.\<close>

definition well_formed_snapshot :: "Snapshot \<Rightarrow> bool" where
  "well_formed_snapshot snap =
     list_all (\<lambda>p. total_count p = int (count_forest (processes p))) snap"

section \<open>Mutations: the bookkeeping of \<^verbatim>\<open>useMutation\<close>\<close>

text \<open>
  The transport functions of \<^verbatim>\<open>lib/api\<close> are external: the hook only passes their
  arguments on and waits for the returned promise. A call is recorded with its arguments
  (\<^verbatim>\<open>force?: boolean\<close> is an optional argument), and the way its promise settles is an
  input of the model.
\<close>

datatype api_call =
  ApiKillProcess int "bool option"
| ApiKillAllProcesses "bool option"
| ApiPauseProcess int
| ApiResumeProcess int

datatype outcome = Resolved | Rejected Error

text \<open>
  \<^verbatim>\<open>useMutation\<close> belongs to the library \<^verbatim>\<open>@tanstack/react-query\<close> (version 5, the
  one whose result has \<^verbatim>\<open>isPending\<close>), which the hook imports. Each
  \<^verbatim>\<open>mutateAsync\<close> creates a mutation of its own, which starts pending and settles
  once; the \<^verbatim>\<open>onSuccess\<close> given to \<^verbatim>\<open>useMutation\<close> runs for every mutation that
  succeeds. The observer behind one \<^verbatim>\<open>useMutation\<close> follows the mutation created
  last, and \<^verbatim>\<open>isPending\<close> reads the status of that one.
\<close>

datatype mutation_status = Idle | Pending | Success | Failed Error

record mutation_observer =
  mutations :: "(api_call \<times> mutation_status) list"
  currentMutation :: "nat option"

definition new_observer :: mutation_observer where
  "new_observer = \<lparr> mutations = [], currentMutation = None \<rparr>"

definition observer_status :: "mutation_observer \<Rightarrow> mutation_status" where
  "observer_status m =
     (case currentMutation m of
        None \<Rightarrow> Idle
      | Some i \<Rightarrow> if i < length (mutations m) then snd (mutations m ! i) else Idle)"

definition isPending :: "mutation_observer \<Rightarrow> bool" where
  "isPending m = (observer_status m = Pending)"

text \<open>Starting a mutation: the transport call is made and the observer moves to it.\<close>

definition mutate :: "api_call \<Rightarrow> mutation_observer \<Rightarrow> nat \<times> mutation_observer" where
  "mutate call m =
     (length (mutations m),
      m\<lparr> mutations := mutations m @ [(call, Pending)],
         currentMutation := Some (length (mutations m)) \<rparr>)"

definition is_outstanding :: "nat \<Rightarrow> mutation_observer \<Rightarrow> bool" where
  "is_outstanding i m = (i < length (mutations m) \<and> snd (mutations m ! i) = Pending)"

definition has_outstanding :: "mutation_observer \<Rightarrow> bool" where
  "has_outstanding m = list_ex (\<lambda>c. snd c = Pending) (mutations m)"

definition settled_status :: "outcome \<Rightarrow> mutation_status" where
  "settled_status out = (case out of Resolved \<Rightarrow> Success | Rejected e \<Rightarrow> Failed e)"

definition settleMutation :: "nat \<Rightarrow> outcome \<Rightarrow> mutation_observer \<Rightarrow> mutation_observer" where
  "settleMutation i out m =
     (if i < length (mutations m)
      then m\<lparr> mutations := (mutations m)[i := (fst (mutations m ! i), settled_status out)] \<rparr>
      else m)"

section \<open>The hook \<^verbatim>\<open>useProcesses\<close>\<close>

text \<open>
  The state behind one mounted hook: the \<^verbatim>\<open>useState\<close> slot \<^verbatim>\<open>wsProcesses\<close>
  (\<^verbatim>\<open>null\<close> is \<^const>\<open>None\<close>), the state of the query behind \<^verbatim>\<open>useQuery\<close>
  (\<^verbatim>\<open>data\<close>, which is \<^verbatim>\<open>undefined\<close> until a fetch succeeds, its status, whether a
  fetch is in flight, and \<^verbatim>\<open>error\<close>), the number of \<^verbatim>\<open>invalidateQueries\<close> calls made
  on the key \<^verbatim>\<open>['processes']\<close>, and the four mutations.
\<close>

datatype query_status = QueryPending | QueryError | QuerySuccess

record hook_state =
  wsProcesses :: "Snapshot option"
  apiProcesses :: "Snapshot option"
  queryStatus :: query_status
  isFetching :: bool
  error :: "Error option"
  invalidations :: nat
  killMutation :: mutation_observer
  killAllMutation :: mutation_observer
  pauseMutation :: mutation_observer
  resumeMutation :: mutation_observer

text \<open>On mount nothing has been received and the first fetch is in flight.\<close>

definition useProcesses_init :: hook_state where
  "useProcesses_init =
     \<lparr> wsProcesses = None, apiProcesses = None, queryStatus = QueryPending,
       isFetching = True, error = None, invalidations = 0,
       killMutation = new_observer, killAllMutation = new_observer,
       pauseMutation = new_observer, resumeMutation = new_observer \<rparr>"

text \<open>\<^verbatim>\<open>const processes = wsProcesses ?? apiProcesses ?? []\<close>\<close>

definition processes_view :: "hook_state \<Rightarrow> Snapshot" where
  "processes_view st =
     (case wsProcesses st of
        Some ws \<Rightarrow> ws
      | None \<Rightarrow> (case apiProcesses st of Some api \<Rightarrow> api | None \<Rightarrow> []))"

text \<open>\<^verbatim>\<open>processes.reduce((sum, p) => sum + p.total_count, 0)\<close>\<close>

definition processCount :: "hook_state \<Rightarrow> int" where
  "processCount st = foldl (\<lambda>sum p. sum + total_count p) 0 (processes_view st)"

definition handleProcessUpdate :: "WSProcessUpdateMessage \<Rightarrow> hook_state \<Rightarrow> hook_state" where
  "handleProcessUpdate msg st = st\<lparr> wsProcesses := Some (message_processes msg) \<rparr>"

text \<open>
  The query \<^verbatim>\<open>api.listAllProcesses\<close> of the library. Its result field
  \<^verbatim>\<open>isLoading\<close> is true while a fetch is in flight and the query has neither data nor
  a failure of that fetch yet.
\<close>

definition isLoading :: "hook_state \<Rightarrow> bool" where
  "isLoading st = (isFetching st \<and> queryStatus st = QueryPending)"

text \<open>
  A fetch starts on mount, every ten seconds (\<^verbatim>\<open>refetchInterval\<close>) and on an
  invalidation. While the query has no data, the start of a fetch puts the status back
  to pending and clears \<^verbatim>\<open>error\<close>; with data, status and error stay until the fetch
  ends.
\<close>

definition fetch_start :: "hook_state \<Rightarrow> hook_state" where
  "fetch_start st =
     st\<lparr> isFetching := True,
        queryStatus := (case apiProcesses st of None \<Rightarrow> QueryPending | Some d \<Rightarrow> queryStatus st),
        error := (case apiProcesses st of None \<Rightarrow> None | Some d \<Rightarrow> error st) \<rparr>"

text \<open>A fetch that succeeds replaces \<^verbatim>\<open>data\<close>; one that fails keeps it and sets \<^verbatim>\<open>error\<close>.\<close>

definition poll_success :: "Snapshot \<Rightarrow> hook_state \<Rightarrow> hook_state" where
  "poll_success snap st =
     st\<lparr> apiProcesses := Some snap, queryStatus := QuerySuccess, isFetching := False,
        error := None \<rparr>"

definition poll_failure :: "Error \<Rightarrow> hook_state \<Rightarrow> hook_state" where
  "poll_failure e st = st\<lparr> queryStatus := QueryError, isFetching := False, error := Some e \<rparr>"

text \<open>
  \<^verbatim>\<open>queryClient.invalidateQueries({ queryKey: ['processes'] })\<close>: the query is marked
  stale and, being in use by the mounted hook, refetched at once.
\<close>

definition invalidateQueries :: "hook_state \<Rightarrow> hook_state" where
  "invalidateQueries st = fetch_start (st\<lparr> invalidations := Suc (invalidations st) \<rparr>)"

subsection \<open>The \<^verbatim>\<open>onSuccess\<close> handlers\<close>

definition killMutation_onSuccess :: "hook_state \<Rightarrow> hook_state" where
  "killMutation_onSuccess st = invalidateQueries st"

definition killAllMutation_onSuccess :: "hook_state \<Rightarrow> hook_state" where
  "killAllMutation_onSuccess st = (invalidateQueries st)\<lparr> wsProcesses := Some [] \<rparr>"

definition pauseMutation_onSuccess :: "hook_state \<Rightarrow> hook_state" where
  "pauseMutation_onSuccess st = invalidateQueries st"

definition resumeMutation_onSuccess :: "hook_state \<Rightarrow> hook_state" where
  "resumeMutation_onSuccess st = invalidateQueries st"

subsection \<open>The action wrappers\<close>

text \<open>
  An action is \<^verbatim>\<open>await mutation.mutateAsync(variables)\<close>. It is modelled in two steps:
  issuing it starts the mutation and returns the identifier of the request; when the
  transport call settles, \<^verbatim>\<open>onSuccess\<close> runs if it resolved, the mutation takes its
  final status, and the promise of the wrapper resolves (\<^const>\<open>Inr\<close>) or rejects with
  the error of the call (\<^const>\<open>Inl\<close>).
\<close>

definition killProcess_issue :: "int \<Rightarrow> bool option \<Rightarrow> hook_state \<Rightarrow> nat \<times> hook_state" where
  "killProcess_issue p force st =
     (let (i, m) = mutate (ApiKillProcess p force) (killMutation st)
      in (i, st\<lparr> killMutation := m \<rparr>))"

definition killProcess_settle :: "nat \<Rightarrow> outcome \<Rightarrow> hook_state \<Rightarrow> (Error + unit) \<times> hook_state" where
  "killProcess_settle i out st =
     (case out of
        Resolved \<Rightarrow>
          (Inr (), (killMutation_onSuccess st)\<lparr> killMutation := settleMutation i out (killMutation st) \<rparr>)
      | Rejected e \<Rightarrow>
          (Inl e, st\<lparr> killMutation := settleMutation i out (killMutation st) \<rparr>))"

definition killAllProcesses_issue :: "bool option \<Rightarrow> hook_state \<Rightarrow> nat \<times> hook_state" where
  "killAllProcesses_issue force st =
     (let (i, m) = mutate (ApiKillAllProcesses force) (killAllMutation st)
      in (i, st\<lparr> killAllMutation := m \<rparr>))"

definition killAllProcesses_settle :: "nat \<Rightarrow> outcome \<Rightarrow> hook_state \<Rightarrow> (Error + unit) \<times> hook_state" where
  "killAllProcesses_settle i out st =
     (case out of
        Resolved \<Rightarrow>
          (Inr (), (killAllMutation_onSuccess st)\<lparr> killAllMutation := settleMutation i out (killAllMutation st) \<rparr>)
      | Rejected e \<Rightarrow>
          (Inl e, st\<lparr> killAllMutation := settleMutation i out (killAllMutation st) \<rparr>))"

definition pauseProcess_issue :: "int \<Rightarrow> hook_state \<Rightarrow> nat \<times> hook_state" where
  "pauseProcess_issue p st =
     (let (i, m) = mutate (ApiPauseProcess p) (pauseMutation st)
      in (i, st\<lparr> pauseMutation := m \<rparr>))"

definition pauseProcess_settle :: "nat \<Rightarrow> outcome \<Rightarrow> hook_state \<Rightarrow> (Error + unit) \<times> hook_state" where
  "pauseProcess_settle i out st =
     (case out of
        Resolved \<Rightarrow>
          (Inr (), (pauseMutation_onSuccess st)\<lparr> pauseMutation := settleMutation i out (pauseMutation st) \<rparr>)
      | Rejected e \<Rightarrow>
          (Inl e, st\<lparr> pauseMutation := settleMutation i out (pauseMutation st) \<rparr>))"

definition resumeProcess_issue :: "int \<Rightarrow> hook_state \<Rightarrow> nat \<times> hook_state" where
  "resumeProcess_issue p st =
     (let (i, m) = mutate (ApiResumeProcess p) (resumeMutation st)
      in (i, st\<lparr> resumeMutation := m \<rparr>))"

definition resumeProcess_settle :: "nat \<Rightarrow> outcome \<Rightarrow> hook_state \<Rightarrow> (Error + unit) \<times> hook_state" where
  "resumeProcess_settle i out st =
     (case out of
        Resolved \<Rightarrow>
          (Inr (), (resumeMutation_onSuccess st)\<lparr> resumeMutation := settleMutation i out (resumeMutation st) \<rparr>)
      | Rejected e \<Rightarrow>
          (Inl e, st\<lparr> resumeMutation := settleMutation i out (resumeMutation st) \<rparr>))"

text \<open>\<^verbatim>\<open>isKilling: killMutation.isPending\<close>, \<^verbatim>\<open>isKillingAll: killAllMutation.isPending\<close>\<close>

definition isKilling :: "hook_state \<Rightarrow> bool" where
  "isKilling st = isPending (killMutation st)"

definition isKillingAll :: "hook_state \<Rightarrow> bool" where
  "isKillingAll st = isPending (killAllMutation st)"

text \<open>
  What the hook returns, as far as it is state (\<^verbatim>\<open>UseProcessesReturn\<close> without the
  action functions and the handler): the only values a consumer of the hook can read.
\<close>

record UseProcessesReturn =
  ret_processes :: Snapshot
  ret_processCount :: int
  ret_isLoading :: bool
  ret_error :: "Error option"
  ret_isKilling :: bool
  ret_isKillingAll :: bool

definition useProcesses_return :: "hook_state \<Rightarrow> UseProcessesReturn" where
  "useProcesses_return st =
     \<lparr> ret_processes = processes_view st, ret_processCount = processCount st,
       ret_isLoading = isLoading st, ret_error = error st,
       ret_isKilling = isKilling st, ret_isKillingAll = isKillingAll st \<rparr>"


section \<open>Sessions: the events a mounted hook sees\<close>

datatype command_kind = Kill | KillAll | Pause | Resume

datatype event =
  Push WSProcessUpdateMessage
| PollSuccess Snapshot
| PollFailure Error
| FetchStart
| Issue api_call
| Settle command_kind nat outcome

fun observer_of :: "command_kind \<Rightarrow> hook_state \<Rightarrow> mutation_observer" where
  "observer_of Kill st = killMutation st"
| "observer_of KillAll st = killAllMutation st"
| "observer_of Pause st = pauseMutation st"
| "observer_of Resume st = resumeMutation st"

fun issue :: "api_call \<Rightarrow> hook_state \<Rightarrow> nat \<times> hook_state" where
  "issue (ApiKillProcess p force) st = killProcess_issue p force st"
| "issue (ApiKillAllProcesses force) st = killAllProcesses_issue force st"
| "issue (ApiPauseProcess p) st = pauseProcess_issue p st"
| "issue (ApiResumeProcess p) st = resumeProcess_issue p st"

fun settle :: "command_kind \<Rightarrow> nat \<Rightarrow> outcome \<Rightarrow> hook_state \<Rightarrow> (Error + unit) \<times> hook_state" where
  "settle Kill i out st = killProcess_settle i out st"
| "settle KillAll i out st = killAllProcesses_settle i out st"
| "settle Pause i out st = pauseProcess_settle i out st"
| "settle Resume i out st = resumeProcess_settle i out st"

text \<open>
  \<^const>\<open>PollSuccess\<close> and \<^const>\<open>PollFailure\<close> are the ends of a fetch, \<^const>\<open>FetchStart\<close>
  is the refetch timer firing. Only a request that is outstanding can settle; any other
  settlement is no event.
\<close>

fun step :: "event \<Rightarrow> hook_state \<Rightarrow> hook_state" where
  "step (Push msg) st = handleProcessUpdate msg st"
| "step (PollSuccess snap) st = poll_success snap st"
| "step (PollFailure e) st = poll_failure e st"
| "step FetchStart st = fetch_start st"
| "step (Issue call) st = snd (issue call st)"
| "step (Settle k i out) st =
     (if is_outstanding i (observer_of k st) then snd (settle k i out st) else st)"

fun run_from :: "hook_state \<Rightarrow> event list \<Rightarrow> hook_state" where
  "run_from st [] = st"
| "run_from st (e # es) = run_from (step e st) es"

definition run :: "event list \<Rightarrow> hook_state" where
  "run es = run_from useProcesses_init es"

section \<open>The hook on untyped messages\<close>

text \<open>
  The type \<^verbatim>\<open>WSProcessUpdateMessage\<close> is erased when the program runs: the handler
  receives whatever \<^verbatim>\<open>JSON.parse\<close> produced. To follow a message of another shape
  through the code, the values are the JSON values (numbers restricted to integers, the
  keys of an object distinct), with \<^verbatim>\<open>undefined\<close> for what a missing property reads
  as.
\<close>

datatype js_value =
  JUndefined
| JNull
| JBool bool
| JNum int
| JStr string
| JArr "js_value list"
| JObj "(string \<times> js_value) list"

datatype js_error = TypeError

text \<open>
  Reading a property \<^verbatim>\<open>v.k\<close>, for a key that is no built-in member (here
  \<^verbatim>\<open>processes\<close> and \<^verbatim>\<open>total_count\<close>): it raises on \<^verbatim>\<open>null\<close> and
  \<^verbatim>\<open>undefined\<close>, and is \<^verbatim>\<open>undefined\<close> on a value without that key.
\<close>

fun get_property :: "js_value \<Rightarrow> string \<Rightarrow> js_error + js_value" where
  "get_property JUndefined k = Inl TypeError"
| "get_property JNull k = Inl TypeError"
| "get_property (JObj fs) k = Inr (case map_of fs k of Some v \<Rightarrow> v | None \<Rightarrow> JUndefined)"
| "get_property v k = Inr JUndefined"

text \<open>The operator \<^verbatim>\<open>a ?? b\<close>.\<close>

fun nullish_coalesce :: "js_value \<Rightarrow> js_value \<Rightarrow> js_value" where
  "nullish_coalesce JUndefined b = b"
| "nullish_coalesce JNull b = b"
| "nullish_coalesce a b = a"

record runtime_state =
  rt_wsProcesses :: js_value
  rt_apiProcesses :: js_value

text \<open>\<^verbatim>\<open>setWsProcesses(message.processes)\<close>\<close>

definition handleProcessUpdate_rt :: "js_value \<Rightarrow> runtime_state \<Rightarrow> js_error + runtime_state" where
  "handleProcessUpdate_rt msg st =
     (case get_property msg ''processes'' of
        Inl e \<Rightarrow> Inl e
      | Inr v \<Rightarrow> Inr (st\<lparr> rt_wsProcesses := v \<rparr>))"

definition processes_rt :: "runtime_state \<Rightarrow> js_value" where
  "processes_rt st =
     nullish_coalesce (rt_wsProcesses st) (nullish_coalesce (rt_apiProcesses st) (JArr []))"

text \<open>
  The accumulator of the reduction is a number as long as only numbers, booleans and
  \<^verbatim>\<open>null\<close> are added to it; adding \<^verbatim>\<open>undefined\<close> gives \<^verbatim>\<open>NaN\<close>, adding a string,
  an array or an object gives a string, and neither becomes a number again.
\<close>

datatype js_sum = Num int | NotANumber

fun js_add :: "js_sum \<Rightarrow> js_value \<Rightarrow> js_sum" where
  "js_add (Num s) (JNum n) = Num (s + n)"
| "js_add (Num s) JNull = Num s"
| "js_add (Num s) (JBool b) = Num (s + (if b then 1 else 0))"
| "js_add (Num s) v = NotANumber"
| "js_add NotANumber v = NotANumber"

fun reduce_step :: "js_error + js_sum \<Rightarrow> js_value \<Rightarrow> js_error + js_sum" where
  "reduce_step (Inl e) p = Inl e"
| "reduce_step (Inr s) p =
     (case get_property p ''total_count'' of
        Inl e \<Rightarrow> Inl e
      | Inr v \<Rightarrow> Inr (js_add s v))"

text \<open>
  \<^verbatim>\<open>processes.reduce((sum, p) => sum + p.total_count, 0)\<close>: only an array has the
  method \<^verbatim>\<open>reduce\<close>, so the call raises on every other value.
\<close>

definition processCount_rt :: "runtime_state \<Rightarrow> js_error + js_sum" where
  "processCount_rt st =
     (case processes_rt st of
        JArr xs \<Rightarrow> foldl reduce_step (Inr (Num 0)) xs
      | _ \<Rightarrow> Inl TypeError)"

subsection \<open>Typed values as runtime values\<close>

fun encode_status :: "ProcessStatus \<Rightarrow> js_value" where
  "encode_status Running = JStr ''running''"
| "encode_status Paused = JStr ''paused''"
| "encode_status Stopped = JStr ''stopped''"

fun encode_process :: "ProcessInfo \<Rightarrow> js_value" where
  "encode_process (ProcessInfo p n s t cs) =
     JObj [(''pid'', JNum p), (''name'', JStr n), (''status'', encode_status s),
           (''started_at'', JStr t), (''children'', JArr (map encode_process cs))]"

definition encode_project :: "ProjectProcesses \<Rightarrow> js_value" where
  "encode_project p =
     JObj [(''project_name'', JStr (project_name p)),
           (''processes'', JArr (map encode_process (processes p))),
           (''total_count'', JNum (total_count p))]"

definition encode_snapshot :: "Snapshot \<Rightarrow> js_value" where
  "encode_snapshot snap = JArr (map encode_project snap)"

definition encode_message :: "WSProcessUpdateMessage \<Rightarrow> js_value" where
  "encode_message msg = JObj [(''processes'', encode_snapshot (message_processes msg))]"

definition encode_state :: "hook_state \<Rightarrow> runtime_state" where
  "encode_state st =
     \<lparr> rt_wsProcesses = (case wsProcesses st of None \<Rightarrow> JNull | Some ws \<Rightarrow> encode_snapshot ws),
       rt_apiProcesses = (case apiProcesses st of None \<Rightarrow> JUndefined | Some api \<Rightarrow> encode_snapshot api) \<rparr>"

text \<open>The Snapshot shape of a runtime value, and a message that lacks it.\<close>

fun is_status_shape :: "js_value \<Rightarrow> bool" where
  "is_status_shape (JStr s) = (s = ''running'' \<or> s = ''paused'' \<or> s = ''stopped'')"
| "is_status_shape v = False"

fun is_num :: "js_value \<Rightarrow> bool" where
  "is_num (JNum n) = True"
| "is_num v = False"

fun is_str :: "js_value \<Rightarrow> bool" where
  "is_str (JStr s) = True"
| "is_str v = False"

fun field :: "(string \<times> js_value) list \<Rightarrow> string \<Rightarrow> js_value" where
  "field fs k = (case map_of fs k of Some v \<Rightarrow> v | None \<Rightarrow> JUndefined)"

function is_process_shape :: "js_value \<Rightarrow> bool" where
  "is_process_shape v =
     (case v of
        JObj fs \<Rightarrow>
          is_num (field fs ''pid'') \<and> is_str (field fs ''name'') \<and>
          is_status_shape (field fs ''status'') \<and> is_str (field fs ''started_at'') \<and>
          (case map_of fs ''children'' of
             Some (JArr cs) \<Rightarrow> list_all is_process_shape cs
           | _ \<Rightarrow> False)
      | _ \<Rightarrow> False)"
  by pat_completeness auto
termination
proof (relation "measure size")
  show "wf (measure size)" by simp
next
  fix v :: js_value and fs a cs and c :: js_value
  assume a: "v = JObj fs" "map_of fs ''children'' = Some a" "a = JArr cs" "c \<in> set cs"
  then have "(''children'', JArr cs) \<in> set fs"
    by (auto dest: map_of_SomeD)
  then have "size_prod (\<lambda>x. 0) size (''children'', JArr cs) \<le> size_list (size_prod (\<lambda>x. 0) size) fs"
    by (rule size_list_estimation') simp
  moreover have "size c \<le> size_list size cs"
    using a(4) by (simp add: size_list_estimation')
  ultimately show "(c, v) \<in> measure size"
    using a(1) by simp
qed

declare is_process_shape.simps [simp del]

fun is_project_shape :: "js_value \<Rightarrow> bool" where
  "is_project_shape (JObj fs) =
     (is_str (field fs ''project_name'') \<and> is_num (field fs ''total_count'') \<and>
      (case map_of fs ''processes'' of
         Some (JArr ps) \<Rightarrow> list_all is_process_shape ps
       | _ \<Rightarrow> False))"
| "is_project_shape v = False"

fun is_snapshot_shape :: "js_value \<Rightarrow> bool" where
  "is_snapshot_shape (JArr xs) = list_all is_project_shape xs"
| "is_snapshot_shape v = False"

text \<open>A push message is malformed when its \<^verbatim>\<open>processes\<close> field has not the Snapshot shape.\<close>

definition malformed :: "js_value \<Rightarrow> bool" where
  "malformed msg =
     (case get_property msg ''processes'' of
        Inl e \<Rightarrow> True
      | Inr v \<Rightarrow> \<not> is_snapshot_shape v)"

section \<open>What the specification says the view is\<close>

text \<open>
  The view as the specification words it, read off the sequence of events alone: the
  snapshot of the last push message if there is one, else the snapshot of the last
  successful poll, else the empty sequence.
\<close>

fun last_push :: "event list \<Rightarrow> Snapshot option" where
  "last_push [] = None"
| "last_push (Push msg # es) =
     (case last_push es of Some s \<Rightarrow> Some s | None \<Rightarrow> Some (message_processes msg))"
| "last_push (e # es) = last_push es"

fun last_poll :: "event list \<Rightarrow> Snapshot option" where
  "last_poll [] = None"
| "last_poll (PollSuccess snap # es) =
     (case last_poll es of Some s \<Rightarrow> Some s | None \<Rightarrow> Some snap)"
| "last_poll (e # es) = last_poll es"

definition currentView_spec :: "event list \<Rightarrow> Snapshot" where
  "currentView_spec es =
     (case last_push es of
        Some s \<Rightarrow> s
      | None \<Rightarrow> (case last_poll es of Some s \<Rightarrow> s | None \<Rightarrow> []))"

text \<open>The events of the two update sources.\<close>

fun is_update :: "event \<Rightarrow> bool" where
  "is_update (Push msg) = True"
| "is_update (PollSuccess snap) = True"
| "is_update e = False"

fun is_push :: "event \<Rightarrow> bool" where
  "is_push (Push msg) = True"
| "is_push e = False"

text \<open>The kind of command an event belongs to, if it is the start or the end of one.\<close>

fun kind_of :: "api_call \<Rightarrow> command_kind" where
  "kind_of (ApiKillProcess p force) = Kill"
| "kind_of (ApiKillAllProcesses force) = KillAll"
| "kind_of (ApiPauseProcess p) = Pause"
| "kind_of (ApiResumeProcess p) = Resume"

fun event_kind :: "event \<Rightarrow> command_kind option" where
  "event_kind (Issue call) = Some (kind_of call)"
| "event_kind (Settle k i out) = Some k"
| "event_kind e = None"

text \<open>The event is the successful settlement of a kill-all request that is outstanding.\<close>

fun is_killAll_success :: "event \<Rightarrow> hook_state \<Rightarrow> bool" where
  "is_killAll_success (Settle KillAll i Resolved) st = is_outstanding i (killAllMutation st)"
| "is_killAll_success e st = False"


section \<open>A concrete session\<close>

text \<open>The snapshot of the specification's example: one project, a process with one child.\<close>

definition demo_snapshot :: Snapshot where
  "demo_snapshot =
     [\<lparr> project_name = ''demo'',
        processes = [ProcessInfo 1 ''agent'' Running ''2024-01-01T00:00:00Z''
                       [ProcessInfo 2 ''mcp'' Running ''2024-01-01T00:00:01Z'' []]],
        total_count = 2 \<rparr>]"

definition demo_state :: hook_state where
  "demo_state = handleProcessUpdate \<lparr> message_processes = demo_snapshot \<rparr> useProcesses_init"

text \<open>A state in which only the poll has delivered the example snapshot.\<close>

definition polled_state :: hook_state where
  "polled_state = poll_success demo_snapshot useProcesses_init"

text \<open>A push message with the empty snapshot.\<close>

definition empty_push :: event where
  "empty_push = Push \<lparr> message_processes = [] \<rparr>"

text \<open>A kill-all that succeeds before any snapshot has been received.\<close>

definition killAll_before_data :: "event list" where
  "killAll_before_data = [Issue (ApiKillAllProcesses (Some True)), Settle KillAll 0 Resolved]"

text \<open>The example state with a kill-all request issued and not yet settled.\<close>

definition killAll_pending_state :: hook_state where
  "killAll_pending_state = step (Issue (ApiKillAllProcesses (Some True))) demo_state"

text \<open>Two kill requests in flight at once.\<close>

definition two_kills :: "event list" where
  "two_kills = [Issue (ApiKillProcess 1 None), Issue (ApiKillProcess 2 None)]"

text \<open>Two kill requests in flight at once, the later one settling first.\<close>

definition overlapped_kills :: "event list" where
  "overlapped_kills =
     [Issue (ApiKillProcess 1 None), Issue (ApiKillProcess 2 None), Settle Kill 1 Resolved]"

text \<open>A push message whose \<^verbatim>\<open>processes\<close> field is a string.\<close>

definition text_message :: js_value where
  "text_message = JObj [(''type'', JStr ''process_update''), (''processes'', JStr ''none'')]"

section \<open>Predicates of the statements\<close>

text \<open>The request issued last through an observer is still outstanding.\<close>

definition latest_outstanding :: "mutation_observer \<Rightarrow> bool" where
  "latest_outstanding m = (case rev (mutations m) of [] \<Rightarrow> False | c # cs \<Rightarrow> snd c = Pending)"

text \<open>An observer follows the mutation created last, if any was created.\<close>

definition follows_latest :: "mutation_observer \<Rightarrow> bool" where
  "follows_latest m =
     (currentMutation m = (if mutations m = [] then None else Some (length (mutations m) - 1)))"

definition observers_follow_latest :: "hook_state \<Rightarrow> bool" where
  "observers_follow_latest st =
     (follows_latest (killMutation st) \<and> follows_latest (killAllMutation st) \<and>
      follows_latest (pauseMutation st) \<and> follows_latest (resumeMutation st))"

fun is_nullish :: "js_value \<Rightarrow> bool" where
  "is_nullish JUndefined = True"
| "is_nullish JNull = True"
| "is_nullish v = False"

fun is_array :: "js_value \<Rightarrow> bool" where
  "is_array (JArr xs) = True"
| "is_array v = False"

section \<open>Definitions unfolded together\<close>

lemmas onSuccess_defs =
  killMutation_onSuccess_def killAllMutation_onSuccess_def pauseMutation_onSuccess_def
  resumeMutation_onSuccess_def invalidateQueries_def fetch_start_def

lemmas settle_defs =
  killProcess_settle_def killAllProcesses_settle_def pauseProcess_settle_def
  resumeProcess_settle_def

lemmas issue_defs =
  killProcess_issue_def killAllProcesses_issue_def pauseProcess_issue_def
  resumeProcess_issue_def

section \<open>The count of processes\<close>

lemma foldl_total_count:
  "foldl (\<lambda>sum p. sum + total_count p) a snap = a + sum_list (map total_count snap)"
  by (induction snap arbitrary: a) simp_all

lemma well_formed_sum:
  "well_formed_snapshot snap \<Longrightarrow> sum_list (map total_count snap) = int (count_snapshot snap)"
  by (induction snap) (simp_all add: well_formed_snapshot_def count_snapshot_def)

text \<open>
  C5: in every state \<^verbatim>\<open>processCount\<close> is the sum of \<^verbatim>\<open>total_count\<close> over the projects
  of the current view, and when the view is a well-formed snapshot (every
  \<^verbatim>\<open>total_count\<close> equal to the recursive node count of its project) that sum is the
  number of process nodes of all trees, descendants included.
\<close>

theorem processCount_sum:
  "processCount st = sum_list (map total_count (processes_view st)) \<and>
   (well_formed_snapshot (processes_view st) \<longrightarrow>
      processCount st = int (count_snapshot (processes_view st)))"
  by (simp add: processCount_def foldl_total_count well_formed_sum)

lemma demo_view: "processes_view demo_state = demo_snapshot"
  by (simp add: demo_state_def handleProcessUpdate_def processes_view_def)

lemma demo_well_formed: "well_formed_snapshot demo_snapshot"
  by (simp add: well_formed_snapshot_def demo_snapshot_def count_forest_def)

theorem processCount_sum_witness:
  "well_formed_snapshot (processes_view demo_state) \<and> processCount demo_state = 2 \<and>
   count_snapshot (processes_view demo_state) = 2"
  using processCount_sum [of demo_state]
  by (simp add: demo_view demo_well_formed)
     (simp add: demo_snapshot_def count_snapshot_def count_forest_def)

section \<open>The view under push and poll updates\<close>

lemma run_from_append: "run_from st (es @ fs) = run_from (run_from st es) fs"
  by (induction es arbitrary: st) simp_all

lemma run_snoc: "run (es @ [e]) = step e (run es)"
  by (simp add: run_def run_from_append)

lemma apiProcesses_step:
  "apiProcesses (step e st) = (case e of PollSuccess snap \<Rightarrow> Some snap | _ \<Rightarrow> apiProcesses st)"
  apply (cases e)
      apply (simp_all add: handleProcessUpdate_def poll_success_def poll_failure_def fetch_start_def)
  subgoal for call
    by (cases call) (simp_all add: issue_defs mutate_def)
  subgoal for k i out
    by (cases k; cases out) (simp_all add: settle_defs onSuccess_defs)
  done

lemma poll_after_fetch_start:
  "poll_success snap (fetch_start st) = poll_success snap st \<and>
   poll_failure e (fetch_start st) = poll_failure e st"
  by (simp add: poll_success_def poll_failure_def fetch_start_def)

lemma refetch_after_failure_loads:
  "\<not> isLoading (run [PollFailure e]) \<and> error (run [PollFailure e]) = Some e \<and>
   isLoading (run [PollFailure e, FetchStart]) \<and> error (run [PollFailure e, FetchStart]) = None \<and>
   isLoading (run [PollFailure e, Issue (ApiKillProcess 1 None), Settle Kill 0 Resolved])"
  by (simp add: run_def useProcesses_init_def new_observer_def poll_failure_def fetch_start_def
      isLoading_def issue_defs settle_defs onSuccess_defs mutate_def is_outstanding_def)

lemma wsProcesses_run_updates:
  "list_all is_update es \<Longrightarrow>
   wsProcesses (run_from st es) = (case last_push es of Some s \<Rightarrow> Some s | None \<Rightarrow> wsProcesses st)"
proof (induction es arbitrary: st)
  case Nil
  then show ?case by simp
next
  case (Cons e es)
  then show ?case
    by (cases e) (simp_all add: handleProcessUpdate_def poll_success_def split: option.splits)
qed

lemma apiProcesses_run_updates:
  "list_all is_update es \<Longrightarrow>
   apiProcesses (run_from st es) = (case last_poll es of Some s \<Rightarrow> Some s | None \<Rightarrow> apiProcesses st)"
proof (induction es arbitrary: st)
  case Nil
  then show ?case by simp
next
  case (Cons e es)
  then show ?case
    by (cases e) (simp_all add: handleProcessUpdate_def poll_success_def split: option.splits)
qed

text \<open>
  C1: for every sequence of push messages handled and poll snapshots fetched since the
  hook was mounted, the exposed view is the snapshot of the last push message if there
  was one, else the last snapshot fetched, else the empty sequence; and once a push
  message has been handled, a further poll snapshot does not change the view.
\<close>

theorem view_push_wins:
  "list_all is_update es \<Longrightarrow>
   processes_view (run es) = currentView_spec es \<and>
   (last_push es \<noteq> None \<longrightarrow>
      processes_view (run (es @ [PollSuccess snap])) = processes_view (run es))"
  by (simp add: run_snoc poll_success_def)
     (simp add: run_def processes_view_def currentView_spec_def wsProcesses_run_updates
      apiProcesses_run_updates useProcesses_init_def split: option.splits)

theorem view_push_wins_witness:
  "list_all is_update [PollSuccess demo_snapshot, Push \<lparr> message_processes = [] \<rparr>] \<and>
   last_push [PollSuccess demo_snapshot, Push \<lparr> message_processes = [] \<rparr>] \<noteq> None \<and>
   processes_view (run [PollSuccess demo_snapshot, Push \<lparr> message_processes = [] \<rparr>]) = [] \<and>
   processes_view (run ([PollSuccess demo_snapshot, Push \<lparr> message_processes = [] \<rparr>] @ [PollSuccess demo_snapshot])) = []"
  using view_push_wins [of "[PollSuccess demo_snapshot, Push \<lparr> message_processes = [] \<rparr>]" demo_snapshot]
  by (simp add: currentView_spec_def)

section \<open>The commands\<close>

text \<open>
  C2: in every state, when a \<^verbatim>\<open>killAllProcesses\<close> call succeeds, the caller's promise
  resolves and right after the settlement, before any further poll or push update, the
  exposed view is the empty sequence (and the count is zero).
\<close>

theorem killAll_success_clears:
  "fst (killAllProcesses_settle i Resolved st) = Inr () \<and>
   wsProcesses (snd (killAllProcesses_settle i Resolved st)) = Some [] \<and>
   processes_view (snd (killAllProcesses_settle i Resolved st)) = [] \<and>
   processCount (snd (killAllProcesses_settle i Resolved st)) = 0"
  by (simp add: killAllProcesses_settle_def killAllMutation_onSuccess_def invalidateQueries_def
      processes_view_def processCount_def)

text \<open>
  C3: in every state, when a \<^verbatim>\<open>killAllProcesses\<close> call fails, the push slot and the
  exposed view are what they were: the clear is not applied, neither at the settlement
  nor when the call was issued, so the view after a failed call is the view before it.
\<close>

theorem killAll_failure_keeps_view:
  "fst (killAllProcesses_settle i (Rejected e) st) = Inl e \<and>
   wsProcesses (snd (killAllProcesses_settle i (Rejected e) st)) = wsProcesses st \<and>
   processes_view (snd (killAllProcesses_settle i (Rejected e) st)) = processes_view st \<and>
   processes_view
     (snd (killAllProcesses_settle (fst (killAllProcesses_issue force st)) (Rejected e)
        (snd (killAllProcesses_issue force st)))) = processes_view st"
  by (simp add: killAllProcesses_settle_def killAllProcesses_issue_def mutate_def processes_view_def
      split: option.splits)


lemma wsProcesses_step_change:
  "wsProcesses (step ev st) \<noteq> wsProcesses st \<Longrightarrow> is_push ev \<or> is_killAll_success ev st"
  apply (cases ev)
       apply (simp_all add: poll_success_def poll_failure_def fetch_start_def)
  subgoal for call
    by (cases call) (simp_all add: issue_defs mutate_def)
  subgoal for k i out
    by (cases k; cases out) (simp_all add: settle_defs onSuccess_defs split: if_splits)
  done

lemma processes_view_slots:
  "wsProcesses a = wsProcesses b \<Longrightarrow> apiProcesses a = apiProcesses b \<Longrightarrow>
   processes_view a = processes_view b"
  by (simp add: processes_view_def split: option.splits)

lemma apiProcesses_step_change:
  "apiProcesses (step ev st) \<noteq> apiProcesses st \<Longrightarrow> is_update ev"
  by (cases ev) (simp_all add: apiProcesses_step del: step.simps)

lemma view_step_change:
  "processes_view (step ev st) \<noteq> processes_view st \<Longrightarrow> is_update ev \<or> is_killAll_success ev st"
proof -
  assume "processes_view (step ev st) \<noteq> processes_view st"
  then have "wsProcesses (step ev st) \<noteq> wsProcesses st \<or> apiProcesses (step ev st) \<noteq> apiProcesses st"
    using processes_view_slots [of "step ev st" st] by blast
  then show ?thesis
  proof
    assume "wsProcesses (step ev st) \<noteq> wsProcesses st"
    then have "is_push ev \<or> is_killAll_success ev st" by (rule wsProcesses_step_change)
    then show ?thesis by (cases ev) simp_all
  next
    assume "apiProcesses (step ev st) \<noteq> apiProcesses st"
    then show ?thesis by (simp add: apiProcesses_step_change)
  qed
qed

text \<open>
  C7 as stated fails: after \<^verbatim>\<open>killAllProcesses\<close> has been issued and while it is
  pending, the view of the example state still shows its project.
\<close>

theorem killAll_pending_view_counterexample:
  "isKillingAll (snd (killAllProcesses_issue (Some True) demo_state)) \<and>
   processes_view (snd (killAllProcesses_issue (Some True) demo_state)) \<noteq> []"
  by (simp add: killAllProcesses_issue_def mutate_def processes_view_def demo_state_def
      handleProcessUpdate_def demo_snapshot_def isKillingAll_def isPending_def observer_status_def
      useProcesses_init_def new_observer_def)

text \<open>
  C7, amended: issuing \<^verbatim>\<open>killAllProcesses\<close> changes neither the push slot nor the view,
  and neither does a kill-all call that fails; the view is emptied when an outstanding
  kill-all request settles successfully. The push slot is written by no event other than
  a push message and that successful settlement, and apart from push and poll updates
  that settlement is the only event that changes the view: nothing is cleared before the
  result of the call is known.
\<close>

theorem killAll_clears_on_success_only:
  "wsProcesses (step (Issue (ApiKillAllProcesses force)) st) = wsProcesses st \<and>
   processes_view (step (Issue (ApiKillAllProcesses force)) st) = processes_view st \<and>
   wsProcesses (step (Settle KillAll i (Rejected e)) st) = wsProcesses st \<and>
   processes_view (step (Settle KillAll i (Rejected e)) st) = processes_view st \<and>
   (is_outstanding i (killAllMutation st) \<longrightarrow>
      processes_view (step (Settle KillAll i Resolved) st) = []) \<and>
   (wsProcesses (step ev st) \<noteq> wsProcesses st \<longrightarrow> is_push ev \<or> is_killAll_success ev st) \<and>
   (processes_view (step ev st) \<noteq> processes_view st \<longrightarrow>
      is_update ev \<or> is_killAll_success ev st)"
proof -
  have a: "wsProcesses (step (Issue (ApiKillAllProcesses force)) st) = wsProcesses st"
    by (simp add: killAllProcesses_issue_def mutate_def)
  have b: "wsProcesses (step (Settle KillAll i (Rejected e)) st) = wsProcesses st"
    by (simp add: killAllProcesses_settle_def)
  have c: "processes_view (step (Issue (ApiKillAllProcesses force)) st) = processes_view st"
    by (rule processes_view_slots) (simp_all add: killAllProcesses_issue_def mutate_def)
  have d: "processes_view (step (Settle KillAll i (Rejected e)) st) = processes_view st"
    by (rule processes_view_slots) (simp_all add: killAllProcesses_settle_def)
  have s: "is_outstanding i (killAllMutation st) \<longrightarrow>
      processes_view (step (Settle KillAll i Resolved) st) = []"
    by (simp add: killAllProcesses_settle_def killAllMutation_onSuccess_def invalidateQueries_def
        fetch_start_def processes_view_def)
  from a b c d s wsProcesses_step_change [of ev st] view_step_change [of ev st]
  show ?thesis by blast
qed

theorem killAll_clears_on_success_only_witness:
  "is_outstanding 0 (killAllMutation killAll_pending_state) \<and>
   processes_view killAll_pending_state = demo_snapshot \<and>
   processes_view (step (Settle KillAll 0 (Rejected (Error ''refused''))) killAll_pending_state)
     = demo_snapshot \<and>
   processes_view (step (Settle KillAll 0 Resolved) killAll_pending_state) = [] \<and>
   wsProcesses (step (Settle KillAll 0 Resolved) killAll_pending_state)
     \<noteq> wsProcesses killAll_pending_state \<and>
   processes_view (step (Settle KillAll 0 Resolved) killAll_pending_state)
     \<noteq> processes_view killAll_pending_state \<and>
   is_killAll_success (Settle KillAll 0 Resolved) killAll_pending_state"
  using killAll_clears_on_success_only
    [of "Some True" demo_state 0 "Error ''refused''" "Settle KillAll 0 Resolved"]
    killAll_clears_on_success_only
    [of "Some True" killAll_pending_state 0 "Error ''refused''" "Settle KillAll 0 Resolved"]
  by (simp add: killAll_pending_state_def demo_state_def demo_snapshot_def handleProcessUpdate_def
      useProcesses_init_def new_observer_def killAllProcesses_issue_def mutate_def
      is_outstanding_def processes_view_def killAllProcesses_settle_def
      killAllMutation_onSuccess_def invalidateQueries_def fetch_start_def)

lemma wsProcesses_step_cleared:
  "\<not> is_push e \<Longrightarrow> wsProcesses st = Some [] \<Longrightarrow> wsProcesses (step e st) = Some []"
  apply (cases e)
      apply (simp_all add: poll_success_def poll_failure_def fetch_start_def)
  subgoal for call
    by (cases call) (simp_all add: issue_defs mutate_def)
  subgoal for k i out
    by (cases k; cases out) (simp_all add: settle_defs onSuccess_defs)
  done

lemma wsProcesses_run_cleared:
  "list_all (\<lambda>e. \<not> is_push e) es \<Longrightarrow> wsProcesses st = Some [] \<Longrightarrow>
   wsProcesses (run_from st es) = Some []"
  by (induction es arbitrary: st) (simp_all add: wsProcesses_step_cleared)

text \<open>
  C10: a successful \<^verbatim>\<open>killAllProcesses\<close> writes the empty sequence into the push slot,
  whatever the slot held (also when no push message was ever handled): after it, through
  every sequence of events without a push message (poll snapshots, failed polls,
  commands) the view stays empty, and the next push message replaces it.
\<close>

theorem killAll_success_masks_polls:
  "list_all (\<lambda>e. \<not> is_push e) es \<Longrightarrow>
   processes_view (run_from (snd (killAllProcesses_settle i Resolved st)) es) = [] \<and>
   processes_view (step (Push msg) (run_from (snd (killAllProcesses_settle i Resolved st)) es))
     = message_processes msg"
proof -
  assume a: "list_all (\<lambda>e. \<not> is_push e) es"
  have "wsProcesses (snd (killAllProcesses_settle i Resolved st)) = Some []"
    by (simp add: killAllProcesses_settle_def killAllMutation_onSuccess_def)
  with a have "wsProcesses (run_from (snd (killAllProcesses_settle i Resolved st)) es) = Some []"
    by (rule wsProcesses_run_cleared)
  then show ?thesis
    by (simp add: processes_view_def handleProcessUpdate_def)
qed

theorem killAll_success_masks_polls_witness:
  "list_all (\<lambda>e. \<not> is_push e) [PollSuccess demo_snapshot, PollFailure (Error ''offline''), PollSuccess demo_snapshot] \<and>
   wsProcesses polled_state = None \<and>
   processes_view polled_state = demo_snapshot \<and>
   processes_view (run_from (snd (killAllProcesses_settle 0 Resolved polled_state))
      [PollSuccess demo_snapshot, PollFailure (Error ''offline''), PollSuccess demo_snapshot]) = []"
  using killAll_success_masks_polls [of "[PollSuccess demo_snapshot, PollFailure (Error ''offline''), PollSuccess demo_snapshot]" 0 polled_state]
  by (simp add: polled_state_def poll_success_def useProcesses_init_def processes_view_def)

section \<open>Empty snapshots and missing data\<close>

lemma wsProcesses_None_step:
  "wsProcesses (step e st) = None \<Longrightarrow> wsProcesses st = None \<and> \<not> is_push e"
  apply (cases e)
      apply (simp_all add: handleProcessUpdate_def poll_success_def poll_failure_def fetch_start_def)
  subgoal for call
    by (cases call) (simp_all add: issue_defs mutate_def)
  subgoal for k i out
    by (cases k; cases out) (simp_all add: settle_defs onSuccess_defs split: if_splits)
  done

lemma last_push_None: "last_push es = None \<longleftrightarrow> list_all (\<lambda>e. \<not> is_push e) es"
proof (induction es)
  case Nil
  show ?case by simp
next
  case (Cons e es)
  then show ?case by (cases e) (simp_all split: option.splits)
qed

lemma wsProcesses_None_run:
  "wsProcesses (run_from st es) = None \<Longrightarrow> wsProcesses st = None \<and> last_push es = None"
proof (induction es arbitrary: st)
  case Nil
  then show ?case by simp
next
  case (Cons e es)
  from Cons.prems have r: "wsProcesses (run_from (step e st) es) = None" by simp
  from Cons.IH [OF r] have a: "wsProcesses (step e st) = None" and b: "last_push es = None"
    by simp_all
  from wsProcesses_None_step [OF a] b show ?case
    by (cases e) simp_all
qed

lemma apiProcesses_run:
  "apiProcesses (run_from st es) = (case last_poll es of Some s \<Rightarrow> Some s | None \<Rightarrow> apiProcesses st)"
proof (induction es arbitrary: st)
  case Nil
  show ?case by simp
next
  case (Cons e es)
  then show ?case
    by (cases e) (simp_all add: apiProcesses_step del: step.simps split: option.splits)
qed

lemma pending_step:
  assumes "queryStatus st = QueryPending \<longrightarrow> apiProcesses st = None"
  shows "queryStatus (step e st) = QueryPending \<longrightarrow> apiProcesses (step e st) = None"
proof (cases e)
  case (Push msg)
  with assms show ?thesis by (simp add: handleProcessUpdate_def)
next
  case (PollSuccess snap)
  then show ?thesis by (simp add: poll_success_def)
next
  case (PollFailure err)
  then show ?thesis by (simp add: poll_failure_def)
next
  case FetchStart
  with assms show ?thesis by (auto simp: fetch_start_def split: option.splits)
next
  case (Issue call)
  with assms show ?thesis by (cases call) (simp_all add: issue_defs mutate_def)
next
  case (Settle k i out)
  with assms show ?thesis
    by (cases k; cases out) (auto simp: settle_defs onSuccess_defs split: option.splits)
qed

lemma pending_run_from:
  "queryStatus st = QueryPending \<longrightarrow> apiProcesses st = None \<Longrightarrow>
   queryStatus (run_from st es) = QueryPending \<longrightarrow> apiProcesses (run_from st es) = None"
proof (induction es arbitrary: st)
  case Nil
  then show ?case by simp
next
  case (Cons e es)
  from Cons.prems have "queryStatus (step e st) = QueryPending \<longrightarrow> apiProcesses (step e st) = None"
    by (rule pending_step)
  then show ?case using Cons.IH [of "step e st"] by simp
qed

lemma isLoading_no_data: "isLoading (run es) \<Longrightarrow> apiProcesses (run es) = None"
  using pending_run_from [of useProcesses_init es]
  by (simp add: run_def isLoading_def useProcesses_init_def)

text \<open>
  C8 as stated fails: a session in which nothing was received and one in which an empty
  push snapshot was received return the same values from the hook, so a consumer cannot
  tell the two apart; and after a kill-all that succeeds before any snapshot was received
  the push slot holds the empty sequence although no snapshot ever arrived.
\<close>

theorem empty_push_indistinguishable_counterexample:
  "last_push [] = None \<and> last_poll [] = None \<and>
   last_push [empty_push] = Some [] \<and>
   useProcesses_return (run [empty_push]) = useProcesses_return (run []) \<and>
   last_push killAll_before_data = None \<and> last_poll killAll_before_data = None \<and>
   wsProcesses (run killAll_before_data) = Some []"
  by (simp add: empty_push_def killAll_before_data_def run_def useProcesses_return_def
      useProcesses_init_def new_observer_def handleProcessUpdate_def processes_view_def
      processCount_def isLoading_def isKilling_def isKillingAll_def issue_defs settle_defs
      onSuccess_defs mutate_def is_outstanding_def)

text \<open>
  C8, amended: handling a push message with the empty sequence makes the view empty
  whatever the poll delivered, and the push slot then holds the empty sequence, not
  \<^verbatim>\<open>null\<close> as on mount. In every session, when both slots are unset no snapshot has
  been received, the poll slot is unset exactly when no poll snapshot has been received,
  and \<^verbatim>\<open>isLoading\<close> is true only when no poll snapshot has been received. The
  difference is not exposed: when both slots are unset, the values the hook returns are
  the same before and after an empty push snapshot.
\<close>

theorem empty_snapshot_tracking:
  "processes_view (handleProcessUpdate \<lparr> message_processes = [] \<rparr> st) = [] \<and>
   wsProcesses (handleProcessUpdate \<lparr> message_processes = [] \<rparr> st) = Some [] \<and>
   wsProcesses useProcesses_init = None \<and> apiProcesses useProcesses_init = None \<and>
   (wsProcesses (run es) = None \<and> apiProcesses (run es) = None \<longrightarrow>
      last_push es = None \<and> last_poll es = None) \<and>
   (apiProcesses (run es) = None) = (last_poll es = None) \<and>
   (isLoading (run es) \<longrightarrow> last_poll es = None) \<and>
   (wsProcesses st = None \<and> apiProcesses st = None \<longrightarrow>
      useProcesses_return (handleProcessUpdate \<lparr> message_processes = [] \<rparr> st)
        = useProcesses_return st)"
proof -
  have a: "(apiProcesses (run es) = None) = (last_poll es = None)"
    using apiProcesses_run [of useProcesses_init es]
    by (simp add: run_def useProcesses_init_def split: option.splits)
  have b: "wsProcesses (run es) = None \<and> apiProcesses (run es) = None \<longrightarrow>
      last_push es = None \<and> last_poll es = None"
    using wsProcesses_None_run [of useProcesses_init es] a
    by (auto simp: run_def)
  have c: "isLoading (run es) \<longrightarrow> last_poll es = None"
    using isLoading_no_data [of es] a by blast
  have d: "wsProcesses st = None \<and> apiProcesses st = None \<longrightarrow>
      useProcesses_return (handleProcessUpdate \<lparr> message_processes = [] \<rparr> st)
        = useProcesses_return st"
    by (simp add: useProcesses_return_def handleProcessUpdate_def processes_view_def
        processCount_def isLoading_def isKilling_def isKillingAll_def)
  have e: "processes_view (handleProcessUpdate \<lparr> message_processes = [] \<rparr> st) = [] \<and>
   wsProcesses (handleProcessUpdate \<lparr> message_processes = [] \<rparr> st) = Some [] \<and>
   wsProcesses useProcesses_init = None \<and> apiProcesses useProcesses_init = None"
    by (simp add: handleProcessUpdate_def processes_view_def useProcesses_init_def)
  from a b c d e show ?thesis by blast
qed

theorem empty_snapshot_tracking_witness:
  "wsProcesses (run []) = None \<and> apiProcesses (run []) = None \<and>
   last_push [] = None \<and> last_poll [] = None \<and> isLoading (run []) \<and>
   wsProcesses useProcesses_init = None \<and> apiProcesses useProcesses_init = None \<and>
   useProcesses_return (handleProcessUpdate \<lparr> message_processes = [] \<rparr> useProcesses_init)
     = useProcesses_return useProcesses_init \<and>
   processes_view (handleProcessUpdate \<lparr> message_processes = [] \<rparr> polled_state) = [] \<and>
   processes_view polled_state \<noteq> []"
  using empty_snapshot_tracking [of useProcesses_init "[]"]
    empty_snapshot_tracking [of polled_state "[]"]
  by (simp add: run_def useProcesses_init_def polled_state_def poll_success_def processes_view_def
      demo_snapshot_def isLoading_def)

section \<open>The in-flight flags\<close>

lemma follows_latest_new: "follows_latest new_observer"
  by (simp add: follows_latest_def new_observer_def)

lemma follows_latest_mutate: "follows_latest (snd (mutate call m))"
  by (simp add: follows_latest_def mutate_def)

lemma follows_latest_settle: "follows_latest m \<Longrightarrow> follows_latest (settleMutation i out m)"
  by (simp add: follows_latest_def settleMutation_def)

lemma observers_step: "observers_follow_latest st \<Longrightarrow> observers_follow_latest (step e st)"
  apply (cases e)
      apply (simp_all add: observers_follow_latest_def handleProcessUpdate_def poll_success_def poll_failure_def fetch_start_def)
  subgoal for call
    by (cases call) (simp_all add: issue_defs follows_latest_def mutate_def)
  subgoal for k i out
    by (cases k; cases out) (simp_all add: settle_defs onSuccess_defs follows_latest_settle)
  done

lemma observers_run_from:
  "observers_follow_latest st \<Longrightarrow> observers_follow_latest (run_from st es)"
  by (induction es arbitrary: st) (simp_all add: observers_step)

lemma observers_run: "observers_follow_latest (run es)"
  unfolding run_def
  by (rule observers_run_from)
     (simp add: observers_follow_latest_def useProcesses_init_def follows_latest_new)

lemma isPending_latest: "follows_latest m \<Longrightarrow> isPending m = latest_outstanding m"
  by (cases "mutations m" rule: rev_cases)
     (simp_all add: follows_latest_def isPending_def observer_status_def latest_outstanding_def)

lemma latest_has_outstanding: "latest_outstanding m \<Longrightarrow> has_outstanding m"
  by (cases "mutations m" rule: rev_cases)
     (simp_all add: latest_outstanding_def has_outstanding_def list_ex_iff)

lemma settled_not_pending: "settled_status out \<noteq> Pending"
  by (cases out) (simp_all add: settled_status_def)

lemma observer_of_issue:
  "observer_of (kind_of call) (step (Issue call) st) = snd (mutate call (observer_of (kind_of call) st))"
  by (cases call) (simp_all add: issue_defs split: prod.splits)

lemma isPending_mutate: "isPending (snd (mutate call m))"
  by (simp add: mutate_def isPending_def observer_status_def)

lemma mutate_id: "Suc (fst (mutate call m)) = length (mutations (snd (mutate call m)))"
  by (simp add: mutate_def)

lemma observer_of_settle:
  "observer_of k (snd (settle k i out st)) = settleMutation i out (observer_of k st)"
  by (cases k; cases out) (simp_all add: settle_defs onSuccess_defs)

lemma isPending_settle_latest:
  assumes "follows_latest m" and "is_outstanding i m" and "Suc i = length (mutations m)"
  shows "\<not> isPending (settleMutation i out m)"
proof -
  from assms(3) have n: "mutations m \<noteq> []" and l: "length (mutations m) - 1 = i" and b: "i < length (mutations m)"
    by auto
  from assms(1) n l have c: "currentMutation m = Some i"
    by (simp add: follows_latest_def)
  show ?thesis
    using b c by (simp add: settleMutation_def isPending_def observer_status_def settled_not_pending)
qed

lemma isPending_settle_earlier:
  assumes "follows_latest m" and "Suc i \<noteq> length (mutations m)"
  shows "isPending (settleMutation i out m) = isPending m"
proof (cases "mutations m = []")
  case True
  then show ?thesis by (simp add: settleMutation_def)
next
  case False
  with assms(1) have c: "currentMutation m = Some (length (mutations m) - 1)"
    by (simp add: follows_latest_def)
  from False assms(2) have "length (mutations m) - 1 \<noteq> i" by (cases "mutations m") auto
  then show ?thesis
    using c False by (simp add: settleMutation_def isPending_def observer_status_def)
qed

lemma observer_of_other_event:
  "event_kind ev \<noteq> Some k \<Longrightarrow> observer_of k (step ev st) = observer_of k st"
proof (cases ev)
  case (Push msg)
  then show ?thesis by (cases k) (simp_all add: handleProcessUpdate_def)
next
  case (PollSuccess snap)
  then show ?thesis by (cases k) (simp_all add: poll_success_def)
next
  case (PollFailure e)
  then show ?thesis by (cases k) (simp_all add: poll_failure_def)
next
  case FetchStart
  then show ?thesis by (cases k) (simp_all add: fetch_start_def)
next
  case (Issue call)
  assume "event_kind ev \<noteq> Some k"
  with Issue show ?thesis
    by (cases call; cases k) (simp_all add: issue_defs mutate_def)
next
  case (Settle k' i out)
  assume "event_kind ev \<noteq> Some k"
  with Settle show ?thesis
    by (cases k'; cases k; cases out) (simp_all add: settle_defs onSuccess_defs)
qed

lemma flag_after_settle_latest:
  "is_outstanding i (observer_of k (run es)) \<Longrightarrow> Suc i = length (mutations (observer_of k (run es))) \<Longrightarrow>
   \<not> isPending (observer_of k (step (Settle k i out) (run es)))"
proof -
  assume a: "is_outstanding i (observer_of k (run es))"
    and b: "Suc i = length (mutations (observer_of k (run es)))"
  have f: "follows_latest (observer_of k (run es))"
    using observers_run [of es] by (cases k) (simp_all add: observers_follow_latest_def)
  from a show ?thesis
    by (simp add: observer_of_settle isPending_settle_latest [OF f a b])
qed

lemma flag_after_settle_earlier:
  "Suc j \<noteq> length (mutations (observer_of k (run es))) \<Longrightarrow>
   isPending (observer_of k (step (Settle k j out) (run es))) = isPending (observer_of k (run es))"
proof -
  assume b: "Suc j \<noteq> length (mutations (observer_of k (run es)))"
  have f: "follows_latest (observer_of k (run es))"
    using observers_run [of es] by (cases k) (simp_all add: observers_follow_latest_def)
  show ?thesis
    by (simp add: observer_of_settle isPending_settle_earlier [OF f b])
qed

text \<open>
  C9 as stated fails: with two kill requests in flight, once the later one has settled
  \<^verbatim>\<open>isKilling\<close> is false although the earlier request is still outstanding.
\<close>

theorem overlapped_kills_counterexample:
  "has_outstanding (killMutation (run overlapped_kills)) \<and> \<not> isKilling (run overlapped_kills)"
  by (simp add: overlapped_kills_def run_def useProcesses_init_def new_observer_def issue_defs
      settle_defs onSuccess_defs mutate_def settleMutation_def is_outstanding_def isKilling_def
      isPending_def observer_status_def has_outstanding_def settled_status_def)

text \<open>
  C9, amended: \<^verbatim>\<open>isKilling\<close> follows the kill request issued last and
  \<^verbatim>\<open>isKillingAll\<close> the kill-all request issued last. Issuing a request sets its flag
  and makes it the last one; in every session, when the request issued last settles its
  flag falls, and the settlement of an earlier request leaves the flag as it is; events
  of any other kind (the other command included) do not change a flag. So a flag is true
  exactly while the request of its kind issued last is outstanding, and a flag that is
  true has an outstanding request of its kind.
\<close>

theorem in_flight_flags_follow_latest:
  "isKilling (step (Issue (ApiKillProcess p force)) st) \<and>
   isKillingAll (step (Issue (ApiKillAllProcesses force)) st) \<and>
   Suc (fst (killProcess_issue p force st))
     = length (mutations (killMutation (snd (killProcess_issue p force st)))) \<and>
   Suc (fst (killAllProcesses_issue force st))
     = length (mutations (killAllMutation (snd (killAllProcesses_issue force st)))) \<and>
   (is_outstanding i (killMutation (run es)) \<and> Suc i = length (mutations (killMutation (run es)))
      \<longrightarrow> \<not> isKilling (step (Settle Kill i out) (run es))) \<and>
   (is_outstanding i (killAllMutation (run es)) \<and>
    Suc i = length (mutations (killAllMutation (run es)))
      \<longrightarrow> \<not> isKillingAll (step (Settle KillAll i out) (run es))) \<and>
   (Suc j \<noteq> length (mutations (killMutation (run es)))
      \<longrightarrow> isKilling (step (Settle Kill j out) (run es)) = isKilling (run es)) \<and>
   (Suc j \<noteq> length (mutations (killAllMutation (run es)))
      \<longrightarrow> isKillingAll (step (Settle KillAll j out) (run es)) = isKillingAll (run es)) \<and>
   (event_kind ev \<noteq> Some Kill \<longrightarrow> isKilling (step ev st) = isKilling st) \<and>
   (event_kind ev \<noteq> Some KillAll \<longrightarrow> isKillingAll (step ev st) = isKillingAll st) \<and>
   isKilling (run es) = latest_outstanding (killMutation (run es)) \<and>
   isKillingAll (run es) = latest_outstanding (killAllMutation (run es)) \<and>
   (isKilling (run es) \<longrightarrow> has_outstanding (killMutation (run es))) \<and>
   (isKillingAll (run es) \<longrightarrow> has_outstanding (killAllMutation (run es)))"
proof -
  have i1: "isKilling (step (Issue (ApiKillProcess p force)) st)"
    using observer_of_issue [of "ApiKillProcess p force" st]
    by (simp add: isKilling_def isPending_mutate del: step.simps)
  have i2: "isKillingAll (step (Issue (ApiKillAllProcesses force)) st)"
    using observer_of_issue [of "ApiKillAllProcesses force" st]
    by (simp add: isKillingAll_def isPending_mutate del: step.simps)
  have n1: "Suc (fst (killProcess_issue p force st))
     = length (mutations (killMutation (snd (killProcess_issue p force st))))"
    by (simp add: killProcess_issue_def mutate_def)
  have n2: "Suc (fst (killAllProcesses_issue force st))
     = length (mutations (killAllMutation (snd (killAllProcesses_issue force st))))"
    by (simp add: killAllProcesses_issue_def mutate_def)
  have l1: "is_outstanding i (killMutation (run es)) \<and> Suc i = length (mutations (killMutation (run es)))
      \<longrightarrow> \<not> isKilling (step (Settle Kill i out) (run es))"
    using flag_after_settle_latest [of i Kill es out]
    by (simp add: isKilling_def del: step.simps)
  have l2: "is_outstanding i (killAllMutation (run es)) \<and>
    Suc i = length (mutations (killAllMutation (run es)))
      \<longrightarrow> \<not> isKillingAll (step (Settle KillAll i out) (run es))"
    using flag_after_settle_latest [of i KillAll es out]
    by (simp add: isKillingAll_def del: step.simps)
  have e1: "Suc j \<noteq> length (mutations (killMutation (run es)))
      \<longrightarrow> isKilling (step (Settle Kill j out) (run es)) = isKilling (run es)"
    using flag_after_settle_earlier [of j Kill es out]
    by (simp add: isKilling_def del: step.simps)
  have e2: "Suc j \<noteq> length (mutations (killAllMutation (run es)))
      \<longrightarrow> isKillingAll (step (Settle KillAll j out) (run es)) = isKillingAll (run es)"
    using flag_after_settle_earlier [of j KillAll es out]
    by (simp add: isKillingAll_def del: step.simps)
  have o1: "event_kind ev \<noteq> Some Kill \<longrightarrow> isKilling (step ev st) = isKilling st"
    using observer_of_other_event [of ev Kill st]
    by (simp add: isKilling_def del: step.simps)
  have o2: "event_kind ev \<noteq> Some KillAll \<longrightarrow> isKillingAll (step ev st) = isKillingAll st"
    using observer_of_other_event [of ev KillAll st]
    by (simp add: isKillingAll_def del: step.simps)
  have k: "isKilling (run es) = latest_outstanding (killMutation (run es))"
    using observers_run [of es]
    by (simp add: isKilling_def observers_follow_latest_def isPending_latest)
  have ka: "isKillingAll (run es) = latest_outstanding (killAllMutation (run es))"
    using observers_run [of es]
    by (simp add: isKillingAll_def observers_follow_latest_def isPending_latest)
  have h1: "isKilling (run es) \<longrightarrow> has_outstanding (killMutation (run es))"
    using k by (simp add: latest_has_outstanding)
  have h2: "isKillingAll (run es) \<longrightarrow> has_outstanding (killAllMutation (run es))"
    using ka by (simp add: latest_has_outstanding)
  from i1 i2 n1 n2 l1 l2 e1 e2 o1 o2 k ka h1 h2 show ?thesis
    by (intro conjI)
qed

lemma two_kills_state:
  "killMutation (run two_kills) =
     \<lparr> mutations = [(ApiKillProcess 1 None, Pending), (ApiKillProcess 2 None, Pending)],
       currentMutation = Some 1 \<rparr> \<and>
   killAllMutation (run two_kills) = new_observer"
  by (simp add: two_kills_def run_def useProcesses_init_def new_observer_def issue_defs mutate_def)

theorem in_flight_flags_follow_latest_witness:
  "is_outstanding 1 (killMutation (run two_kills)) \<and>
   Suc 1 = length (mutations (killMutation (run two_kills))) \<and>
   \<not> isKilling (step (Settle Kill 1 Resolved) (run two_kills)) \<and>
   Suc 0 \<noteq> length (mutations (killMutation (run two_kills))) \<and>
   isKilling (step (Settle Kill 0 Resolved) (run two_kills)) \<and>
   Suc 0 \<noteq> length (mutations (killAllMutation (run two_kills))) \<and>
   event_kind (Issue (ApiKillAllProcesses None)) \<noteq> Some Kill \<and>
   isKilling (step (Issue (ApiKillAllProcesses None)) (run two_kills)) \<and>
   event_kind (Issue (ApiKillProcess 3 None)) \<noteq> Some KillAll \<and>
   isKilling (run two_kills) \<and> has_outstanding (killMutation (run two_kills)) \<and>
   \<not> isKillingAll (run two_kills)"
  using in_flight_flags_follow_latest
      [of 1 None "run two_kills" 1 two_kills Resolved 0 "Issue (ApiKillAllProcesses None)"]
    in_flight_flags_follow_latest
      [of 1 None "run two_kills" 1 two_kills Resolved 0 "Issue (ApiKillProcess 3 None)"]
  by (simp add: two_kills_state is_outstanding_def new_observer_def latest_outstanding_def
      del: step.simps)

section \<open>Messages of another shape\<close>

text \<open>On the values of typed messages and states the untyped hook is the typed one.\<close>

lemma is_process_shape_encode: "is_process_shape (encode_process p)"
proof (induction p)
  case (ProcessInfo p n s t cs)
  then have "list_all is_process_shape (map encode_process cs)"
    by (simp add: list_all_iff)
  then show ?case
    by (cases s) (simp_all add: is_process_shape.simps [of "JObj fs" for fs])
qed

lemma is_snapshot_shape_encode: "is_snapshot_shape (encode_snapshot snap)"
  by (simp add: encode_snapshot_def encode_project_def list_all_iff is_process_shape_encode)

lemma encode_message_not_malformed: "\<not> malformed (encode_message msg)"
  by (simp add: malformed_def encode_message_def is_snapshot_shape_encode)

lemma nullish_encode_snapshot [simp]: "nullish_coalesce (encode_snapshot snap) b = encode_snapshot snap"
  by (simp add: encode_snapshot_def)

lemma processes_rt_typed: "processes_rt (encode_state st) = encode_snapshot (processes_view st)"
  by (simp add: processes_rt_def encode_state_def processes_view_def encode_snapshot_def
      split: option.splits)

lemma foldl_reduce_step_typed:
  "foldl reduce_step (Inr (Num a)) (map encode_project snap)
     = Inr (Num (foldl (\<lambda>sum p. sum + total_count p) a snap))"
  by (induction snap arbitrary: a) (simp_all add: encode_project_def)

lemma processCount_rt_typed: "processCount_rt (encode_state st) = Inr (Num (processCount st))"
  by (simp add: processCount_rt_def processes_rt_typed processCount_def encode_snapshot_def
      foldl_reduce_step_typed)

lemma handleProcessUpdate_rt_typed:
  "handleProcessUpdate_rt (encode_message msg) (encode_state st)
     = Inr (encode_state (handleProcessUpdate msg st))"
  by (simp add: handleProcessUpdate_rt_def encode_message_def encode_state_def
      handleProcessUpdate_def)

text \<open>
  C6 as stated fails: the message whose \<^verbatim>\<open>processes\<close> field is a string is malformed,
  yet handling it replaces the push slot, the view is no longer the snapshot it was, and
  the count, which was 2, can no longer be computed.
\<close>

theorem malformed_push_counterexample:
  "malformed text_message \<and>
   handleProcessUpdate_rt text_message (encode_state demo_state)
     = Inr ((encode_state demo_state)\<lparr> rt_wsProcesses := JStr ''none'' \<rparr>) \<and>
   processes_rt (encode_state demo_state) = encode_snapshot demo_snapshot \<and>
   processes_rt ((encode_state demo_state)\<lparr> rt_wsProcesses := JStr ''none'' \<rparr>) = JStr ''none'' \<and>
   encode_snapshot demo_snapshot \<noteq> JStr ''none'' \<and>
   processCount_rt (encode_state demo_state) = Inr (Num 2) \<and>
   processCount_rt ((encode_state demo_state)\<lparr> rt_wsProcesses := JStr ''none'' \<rparr>) = Inl TypeError"
proof -
  have v: "processes_view demo_state = demo_snapshot"
    by (simp add: demo_state_def handleProcessUpdate_def processes_view_def)
  have c: "processCount demo_state = 2"
    by (simp add: processCount_def v) (simp add: demo_snapshot_def)
  show ?thesis
    by (simp add: processes_rt_typed processCount_rt_typed v c)
       (simp add: malformed_def text_message_def handleProcessUpdate_rt_def processes_rt_def
        processCount_rt_def encode_snapshot_def)
qed

text \<open>
  C6, amended: a push message is stored unvalidated. When the message itself is
  \<^verbatim>\<open>null\<close> or \<^verbatim>\<open>undefined\<close> the handler raises and stores nothing; otherwise its
  \<^verbatim>\<open>processes\<close> field replaces the push slot whatever it is: a field that is
  \<^verbatim>\<open>null\<close> or absent makes the view fall back to the poll snapshot (or the empty
  sequence), any other field becomes the view, and a field that is neither of these nor
  an array makes the computation of the count raise a TypeError.
\<close>

theorem push_message_stored_unvalidated:
  "(case get_property msg ''processes'' of
      Inl e \<Rightarrow> handleProcessUpdate_rt msg st = Inl e
    | Inr v \<Rightarrow>
        handleProcessUpdate_rt msg st = Inr (st\<lparr> rt_wsProcesses := v \<rparr>) \<and>
        processes_rt (st\<lparr> rt_wsProcesses := v \<rparr>)
          = (if is_nullish v then nullish_coalesce (rt_apiProcesses st) (JArr []) else v) \<and>
        (\<not> is_nullish v \<and> \<not> is_array v \<longrightarrow>
           processCount_rt (st\<lparr> rt_wsProcesses := v \<rparr>) = Inl TypeError))"
proof (cases "get_property msg ''processes''")
  case (Inl e)
  then show ?thesis by (simp add: handleProcessUpdate_rt_def)
next
  case (Inr v)
  have "processes_rt (st\<lparr> rt_wsProcesses := v \<rparr>)
          = (if is_nullish v then nullish_coalesce (rt_apiProcesses st) (JArr []) else v)"
    by (cases v) (simp_all add: processes_rt_def)
  moreover have "\<not> is_nullish v \<and> \<not> is_array v \<longrightarrow>
           processCount_rt (st\<lparr> rt_wsProcesses := v \<rparr>) = Inl TypeError"
    by (cases v) (simp_all add: processCount_rt_def processes_rt_def)
  ultimately show ?thesis using Inr by (simp add: handleProcessUpdate_rt_def)
qed

theorem push_message_stored_unvalidated_witness:
  "get_property text_message ''processes'' = Inr (JStr ''none'') \<and>
   \<not> is_nullish (JStr ''none'') \<and> \<not> is_array (JStr ''none'') \<and>
   handleProcessUpdate_rt text_message (encode_state demo_state)
     = Inr ((encode_state demo_state)\<lparr> rt_wsProcesses := JStr ''none'' \<rparr>) \<and>
   processCount_rt ((encode_state demo_state)\<lparr> rt_wsProcesses := JStr ''none'' \<rparr>) = Inl TypeError"
  using push_message_stored_unvalidated [of text_message "encode_state demo_state"]
  by (simp add: text_message_def)

end
